theory Spec2Isabelle
  imports Main "HOL-Library.Word"
begin

section \<open>DynBuffer: a growable, cursor-based binary buffer\<close>

text \<open>
  The class \<^verbatim>\<open>DynBuffer\<close> of \<^verbatim>\<open>src/dynbuffer.js\<close> keeps three private fields:
  \<^verbatim>\<open>#stream\<close> (a Node.js Buffer over a resizable ArrayBuffer), \<^verbatim>\<open>#position\<close> (a number)
  and \<^verbatim>\<open>#endian\<close>. Methods mutate the fields and may throw; here every method takes the
  state and returns the outcome (an error or a value) together with the state it leaves
  behind, so that what a throwing call has already changed stays visible.

  What the class takes from its host is modelled as follows.
  \<^item> \<^verbatim>\<open>#stream\<close> is a view of an ArrayBuffer, so the state holds the ArrayBuffer's bytes and
    the view. The view made by the constructor follows the length of the ArrayBuffer; the
    view made by \<^verbatim>\<open>subarray(0, value)\<close> in the length setter has a fixed length. Both start at
    byte 0. \<^verbatim>\<open>stream.buffer.resize\<close> cuts or zero-fills the ArrayBuffer and throws a RangeError
    beyond \<^verbatim>\<open>maxByteLength\<close>; it never changes a view. A fixed view that no longer fits its
    ArrayBuffer shows no bytes.
  \<^item> Numbers are integers (\<^typ>\<open>int\<close>); a bigint is an integer of its own kind. The argument
    and the result of the float accessors are given by their IEEE-754 bit pattern: the
    conversion between a number and its pattern is the host's and is not modelled, and a
    call that would need it (a pattern handed to an integer method, another value handed
    to a float method) is answered \<open>NotModelled\<close>.
  \<^item> The Buffer methods \<^verbatim>\<open>writeInt8\<close>, \<^verbatim>\<open>readUInt16BE\<close>, ... coerce and check the value, then
    check that the accessed bytes lie inside the view, and throw otherwise.
  \<^item> The text codec (\<^verbatim>\<open>iconv-lite\<close>) is a parameter of the methods that use it.
\<close>

subsection \<open>Data\<close>

type_synonym byte = "8 word"

datatype endian = BE | LE

text \<open>
  The exceptions: \<open>UnsupportedEncoding\<close> is the \<^verbatim>\<open>Error('Invalid encoding ...')\<close> of the class,
  \<open>CapacityExceeded\<close> the RangeError of \<^verbatim>\<open>ArrayBuffer.prototype.resize\<close>, \<open>OutOfBounds\<close> and
  \<open>ValueOutOfRange\<close> the RangeError of a Buffer method for an offset outside the view and
  for a value outside the type, \<open>TypeError\<close> a call of a method that does not exist, a bigint
  where a number is coerced, or a number where a bigint is stored.
\<close>

datatype error = UnsupportedEncoding | CapacityExceeded | OutOfBounds | ValueOutOfRange | TypeError
  | NotModelled

datatype val = Num int | Big int | F32 "32 word" | F64 "64 word" | Bool bool | Undefined

text \<open>
  \<open>arraybuffer\<close> holds the bytes of \<^verbatim>\<open>#stream.buffer\<close>. \<open>view\<close> is \<open>None\<close> for a view that follows
  the ArrayBuffer's length and \<open>Some n\<close> for a view of the fixed length \<open>n\<close>.
\<close>

record dynbuffer =
  arraybuffer :: "byte list"
  view :: "nat option"
  position :: int
  endian :: endian

type_synonym 'a result = "(error + 'a) \<times> dynbuffer"

text \<open>The text codec service: \<^verbatim>\<open>iconv.encodingExists\<close>, \<^verbatim>\<open>iconv.encode\<close>, \<^verbatim>\<open>iconv.decode\<close>.\<close>

record codec =
  encodingExists :: "string \<Rightarrow> bool"
  encode :: "string \<Rightarrow> string \<Rightarrow> byte list"
  decode :: "byte list \<Rightarrow> string \<Rightarrow> string"

subsection \<open>The host: resizable ArrayBuffer and Buffer methods\<close>

definition maxByteLength :: int where
  "maxByteLength = 2 ^ 30"

definition resize :: "int \<Rightarrow> byte list \<Rightarrow> error + byte list" where
  "resize newLength buf =
     (if newLength < 0 \<or> maxByteLength < newLength then Inl CapacityExceeded
      else Inr (take (nat newLength) buf @ replicate (nat newLength - length buf) 0))"

text \<open>The bytes that \<^verbatim>\<open>#stream\<close> shows: its length is \<^verbatim>\<open>#stream.length\<close>.\<close>

definition stream :: "dynbuffer \<Rightarrow> byte list" where
  "stream s =
     (case view s of
        None \<Rightarrow> arraybuffer s
      | Some n \<Rightarrow> if n \<le> length (arraybuffer s) then take n (arraybuffer s) else [])"

text \<open>
  A write through the view puts the view's new bytes in front of the bytes of the
  ArrayBuffer that lie behind the view.
\<close>

definition write_through :: "byte list \<Rightarrow> dynbuffer \<Rightarrow> dynbuffer" where
  "write_through st s = s\<lparr>arraybuffer := st @ drop (length st) (arraybuffer s)\<rparr>"

text \<open>A relative index of \<^verbatim>\<open>subarray\<close>: negative counts from the end, then clamped.\<close>

definition relative_index :: "int \<Rightarrow> int \<Rightarrow> int" where
  "relative_index len i = (if i < 0 then max (len + i) 0 else min i len)"

definition subarray :: "int \<Rightarrow> int \<Rightarrow> byte list \<Rightarrow> byte list" where
  "subarray start stop buf =
     (let len = int (length buf);
          b = relative_index len start;
          e = relative_index len stop
      in take (nat (e - b)) (drop (nat b) buf))"

text \<open>
  The method families of Buffer that the class calls; \<^verbatim>\<open>'writeInt16'\<close> and \<^verbatim>\<open>'readInt16'\<close> are
  the family \<open>Int16\<close>. A family of width 1 has one method, the others one per byte order.
\<close>

datatype kind = Int8 | UInt8 | Int16 | UInt16 | Int32 | UInt32 | Float | Double | BigInt64 | BigUint64

fun kind_width :: "kind \<Rightarrow> nat" where
  "kind_width Int8 = 1"
| "kind_width UInt8 = 1"
| "kind_width Int16 = 2"
| "kind_width UInt16 = 2"
| "kind_width Int32 = 4"
| "kind_width UInt32 = 4"
| "kind_width Float = 4"
| "kind_width Double = 8"
| "kind_width BigInt64 = 8"
| "kind_width BigUint64 = 8"

definition method_exists :: "kind \<Rightarrow> endian option \<Rightarrow> bool" where
  "method_exists k sfx = ((kind_width k = 1) = (sfx = None))"

text \<open>
  Little-endian writes store the low byte and shift the value right, ascending; big-endian
  writes do the same at descending offsets.
\<close>

fun le_bytes :: "nat \<Rightarrow> int \<Rightarrow> byte list" where
  "le_bytes 0 v = []"
| "le_bytes (Suc n) v = word_of_int v # le_bytes n (v div 256)"

fun be_bytes :: "nat \<Rightarrow> int \<Rightarrow> byte list" where
  "be_bytes 0 v = []"
| "be_bytes (Suc n) v = be_bytes n (v div 256) @ [word_of_int v]"

fun le_val :: "byte list \<Rightarrow> int" where
  "le_val [] = 0"
| "le_val (b # bs) = uint b + 256 * le_val bs"

definition be_val :: "byte list \<Rightarrow> int" where
  "be_val bs = foldl (\<lambda>a b. a * 256 + uint b) 0 bs"

text \<open>
  What a write method does with its value: the methods for numbers coerce it with \<^verbatim>\<open>+value\<close>
  (a bigint throws a TypeError, \<^verbatim>\<open>true\<close> is 1, \<^verbatim>\<open>undefined\<close> is NaN) and compare it with the
  bounds of the type (NaN passes); the methods for bigints compare first and throw a
  TypeError when they store a value that is no bigint; the float methods store a pattern.
\<close>

datatype family = Integer int int | Single | DoublePrecision | BigInteger int int

fun kind_family :: "kind \<Rightarrow> family" where
  "kind_family Int8 = Integer (- (2 ^ 7)) (2 ^ 7 - 1)"
| "kind_family UInt8 = Integer 0 (2 ^ 8 - 1)"
| "kind_family Int16 = Integer (- (2 ^ 15)) (2 ^ 15 - 1)"
| "kind_family UInt16 = Integer 0 (2 ^ 16 - 1)"
| "kind_family Int32 = Integer (- (2 ^ 31)) (2 ^ 31 - 1)"
| "kind_family UInt32 = Integer 0 (2 ^ 32 - 1)"
| "kind_family Float = Single"
| "kind_family Double = DoublePrecision"
| "kind_family BigInt64 = BigInteger (- (2 ^ 63)) (2 ^ 63 - 1)"
| "kind_family BigUint64 = BigInteger 0 (2 ^ 64 - 1)"

definition checkInt :: "int \<Rightarrow> int \<Rightarrow> int \<Rightarrow> error option" where
  "checkInt v lo hi = (if hi < v \<or> v < lo then Some ValueOutOfRange else None)"

text \<open>The error of the coercion and of the range check, which come before the bounds check.\<close>

fun checked :: "family \<Rightarrow> val \<Rightarrow> error option" where
  "checked (Integer lo hi) (Num n) = checkInt n lo hi"
| "checked (Integer lo hi) (Bool b) = checkInt (if b then 1 else 0) lo hi"
| "checked (Integer lo hi) Undefined = None"
| "checked (Integer lo hi) (Big n) = Some TypeError"
| "checked (Integer lo hi) (F32 w) = Some NotModelled"
| "checked (Integer lo hi) (F64 w) = Some NotModelled"
| "checked Single (F32 w) = None"
| "checked Single (Big n) = Some TypeError"
| "checked Single (Num n) = Some NotModelled"
| "checked Single (F64 w) = Some NotModelled"
| "checked Single (Bool b) = Some NotModelled"
| "checked Single Undefined = Some NotModelled"
| "checked DoublePrecision (F64 w) = None"
| "checked DoublePrecision (Big n) = Some TypeError"
| "checked DoublePrecision (Num n) = Some NotModelled"
| "checked DoublePrecision (F32 w) = Some NotModelled"
| "checked DoublePrecision (Bool b) = Some NotModelled"
| "checked DoublePrecision Undefined = Some NotModelled"
| "checked (BigInteger lo hi) (Big n) = checkInt n lo hi"
| "checked (BigInteger lo hi) (Num n) = checkInt n lo hi"
| "checked (BigInteger lo hi) (Bool b) = checkInt (if b then 1 else 0) lo hi"
| "checked (BigInteger lo hi) Undefined = None"
| "checked (BigInteger lo hi) (F32 w) = Some NotModelled"
| "checked (BigInteger lo hi) (F64 w) = Some NotModelled"

text \<open>
  The integer whose low bytes are stored, after the bounds check; NaN is stored as 0, and
  storing a number as a bigint throws.
\<close>

fun stored :: "family \<Rightarrow> val \<Rightarrow> error + int" where
  "stored (Integer lo hi) (Num n) = Inr n"
| "stored (Integer lo hi) (Bool b) = Inr (if b then 1 else 0)"
| "stored (Integer lo hi) Undefined = Inr 0"
| "stored (Integer lo hi) (Big n) = Inl TypeError"
| "stored (Integer lo hi) (F32 w) = Inl NotModelled"
| "stored (Integer lo hi) (F64 w) = Inl NotModelled"
| "stored Single (F32 w) = Inr (uint w)"
| "stored Single (Big n) = Inl TypeError"
| "stored Single (Num n) = Inl NotModelled"
| "stored Single (F64 w) = Inl NotModelled"
| "stored Single (Bool b) = Inl NotModelled"
| "stored Single Undefined = Inl NotModelled"
| "stored DoublePrecision (F64 w) = Inr (uint w)"
| "stored DoublePrecision (Big n) = Inl TypeError"
| "stored DoublePrecision (Num n) = Inl NotModelled"
| "stored DoublePrecision (F32 w) = Inl NotModelled"
| "stored DoublePrecision (Bool b) = Inl NotModelled"
| "stored DoublePrecision Undefined = Inl NotModelled"
| "stored (BigInteger lo hi) (Big n) = Inr n"
| "stored (BigInteger lo hi) (Num n) = Inl TypeError"
| "stored (BigInteger lo hi) (Bool b) = Inl TypeError"
| "stored (BigInteger lo hi) Undefined = Inl TypeError"
| "stored (BigInteger lo hi) (F32 w) = Inl NotModelled"
| "stored (BigInteger lo hi) (F64 w) = Inl NotModelled"

definition signed :: "nat \<Rightarrow> int \<Rightarrow> int" where
  "signed bits n = (if 2 ^ (bits - 1) \<le> n then n - 2 ^ bits else n)"

text \<open>The value a read method returns for the unsigned integer its bytes spell.\<close>

fun bits_number :: "kind \<Rightarrow> int \<Rightarrow> val" where
  "bits_number Int8 n = Num (signed 8 n)"
| "bits_number UInt8 n = Num n"
| "bits_number Int16 n = Num (signed 16 n)"
| "bits_number UInt16 n = Num n"
| "bits_number Int32 n = Num (signed 32 n)"
| "bits_number UInt32 n = Num n"
| "bits_number Float n = F32 (word_of_int n)"
| "bits_number Double n = F64 (word_of_int n)"
| "bits_number BigInt64 n = Big (signed 64 n)"
| "bits_number BigUint64 n = Big n"

definition in_bounds :: "int \<Rightarrow> nat \<Rightarrow> byte list \<Rightarrow> bool" where
  "in_bounds off w buf = (0 \<le> off \<and> off + int w \<le> int (length buf))"

definition store_bytes :: "byte list \<Rightarrow> int \<Rightarrow> byte list \<Rightarrow> byte list" where
  "store_bytes bs off buf = take (nat off) buf @ bs @ drop (nat off + length bs) buf"

text \<open>A write and a read method, on the bytes that the view shows.\<close>

definition Buffer_write :: "kind \<Rightarrow> endian option \<Rightarrow> val \<Rightarrow> int \<Rightarrow> byte list \<Rightarrow> error + byte list" where
  "Buffer_write k sfx v off buf =
     (if \<not> method_exists k sfx then Inl TypeError
      else case checked (kind_family k) v of
        Some e \<Rightarrow> Inl e
      | None \<Rightarrow>
          if \<not> in_bounds off (kind_width k) buf then Inl OutOfBounds
          else case stored (kind_family k) v of
            Inl e \<Rightarrow> Inl e
          | Inr n \<Rightarrow>
              Inr (store_bytes
                (if sfx = Some BE then be_bytes (kind_width k) n else le_bytes (kind_width k) n)
                off buf))"

definition Buffer_read :: "kind \<Rightarrow> endian option \<Rightarrow> int \<Rightarrow> byte list \<Rightarrow> error + val" where
  "Buffer_read k sfx off buf =
     (if \<not> method_exists k sfx then Inl TypeError
      else if \<not> in_bounds off (kind_width k) buf then Inl OutOfBounds
      else let bs = take (kind_width k) (drop (nat off) buf)
           in Inr (bits_number k (if sfx = Some BE then be_val bs else le_val bs)))"

subsection \<open>The class\<close>

text \<open>
  \<^verbatim>\<open>constructor()\<close>: an empty ArrayBuffer under a view that follows its length, position 0,
  big endian.
\<close>

definition DynBuffer :: dynbuffer where
  "DynBuffer = \<lparr>arraybuffer = [], view = None, position = 0, endian = BE\<rparr>"

text \<open>\<^verbatim>\<open>get bytesAvailable\<close>, \<^verbatim>\<open>get length\<close>.\<close>

definition bytesAvailable :: "dynbuffer \<Rightarrow> int" where
  "bytesAvailable s = int (length (stream s)) - position s"

definition get_length :: "dynbuffer \<Rightarrow> int" where
  "get_length s = int (length (stream s))"

text \<open>
  \<^verbatim>\<open>set length(value)\<close>: the branch for a larger value is empty; the other one replaces
  \<^verbatim>\<open>#stream\<close> by \<^verbatim>\<open>subarray(0, value)\<close>, a view of fixed length on the same ArrayBuffer, and puts
  the position at the new length.
\<close>

definition set_length :: "int \<Rightarrow> dynbuffer \<Rightarrow> dynbuffer" where
  "set_length v s =
     (if int (length (stream s)) < v then s
      else let st = subarray 0 v (stream s)
           in s\<lparr>view := Some (length st), position := int (length st)\<rparr>)"

definition set_position :: "int \<Rightarrow> dynbuffer \<Rightarrow> dynbuffer" where
  "set_position v s = s\<lparr>position := v\<rparr>"

definition set_endian :: "endian \<Rightarrow> dynbuffer \<Rightarrow> dynbuffer" where
  "set_endian v s = s\<lparr>endian := v\<rparr>"

text \<open>\<^verbatim>\<open>#ensureCapacity(bytes)\<close> resizes the ArrayBuffer, \<^verbatim>\<open>this.#stream.buffer\<close>.\<close>

definition ensureCapacity :: "int \<Rightarrow> dynbuffer \<Rightarrow> unit result" where
  "ensureCapacity bytes s =
     (if bytesAvailable s < bytes then
        (let newLength = int (length (stream s)) + (bytes - bytesAvailable s)
         in case resize newLength (arraybuffer s) of
              Inl e \<Rightarrow> (Inl e, s)
            | Inr ab \<Rightarrow> (Inr (), s\<lparr>arraybuffer := ab\<rparr>))
      else (Inr (), s))"

text \<open>
  \<^verbatim>\<open>#executeCall(func, bytes, value)\<close>. The method name is \<^verbatim>\<open>func\<close> when \<^verbatim>\<open>bytes === 1\<close> and
  \<^verbatim>\<open>func\<close> followed by the byte order otherwise. A call with three arguments writes, one
  with two reads: these are the two functions below.
\<close>

definition func_suffix :: "int \<Rightarrow> dynbuffer \<Rightarrow> endian option" where
  "func_suffix bytes s = (if bytes = 1 then None else Some (endian s))"

definition executeCall_write :: "kind \<Rightarrow> int \<Rightarrow> val \<Rightarrow> dynbuffer \<Rightarrow> unit result" where
  "executeCall_write func bytes v s =
     (case ensureCapacity bytes s of
        (Inl e, s1) \<Rightarrow> (Inl e, s1)
      | (Inr u, s1) \<Rightarrow>
          (case Buffer_write func (func_suffix bytes s1) v (position s1) (stream s1) of
             Inl e \<Rightarrow> (Inl e, s1)
           | Inr st \<Rightarrow> (Inr (), (write_through st s1)\<lparr>position := position s1 + bytes\<rparr>)))"

definition executeCall_read :: "kind \<Rightarrow> int \<Rightarrow> dynbuffer \<Rightarrow> val result" where
  "executeCall_read func bytes s =
     (case Buffer_read func (func_suffix bytes s) (position s) (stream s) of
        Inl e \<Rightarrow> (Inl e, s)
      | Inr v \<Rightarrow> (Inr v, s\<lparr>position := position s + bytes\<rparr>))"

text \<open>\<^verbatim>\<open>clear()\<close>.\<close>

definition clear :: "dynbuffer \<Rightarrow> dynbuffer" where
  "clear s = set_length 0 (s\<lparr>position := 0\<rparr>)"

subsubsection \<open>Typed accessors\<close>

definition writeByte :: "val \<Rightarrow> dynbuffer \<Rightarrow> unit result" where
  "writeByte v s = executeCall_write Int8 1 v s"

definition readByte :: "dynbuffer \<Rightarrow> val result" where
  "readByte s = executeCall_read Int8 1 s"

definition writeUnsignedByte :: "val \<Rightarrow> dynbuffer \<Rightarrow> unit result" where
  "writeUnsignedByte v s = executeCall_write UInt8 1 v s"

definition readUnsignedByte :: "dynbuffer \<Rightarrow> val result" where
  "readUnsignedByte s = executeCall_read UInt8 1 s"

text \<open>\<^verbatim>\<open>writeBytes\<close> and \<^verbatim>\<open>readBytes\<close> have an empty body.\<close>

definition writeBytes :: "byte list \<Rightarrow> int \<Rightarrow> int \<Rightarrow> dynbuffer \<Rightarrow> unit result" where
  "writeBytes bytes pos len s = (Inr (), s)"

definition readBytes :: "byte list \<Rightarrow> int \<Rightarrow> int \<Rightarrow> dynbuffer \<Rightarrow> unit result" where
  "readBytes bytes pos len s = (Inr (), s)"

text \<open>
  \<^verbatim>\<open>writeBoolean(value)\<close> writes \<^verbatim>\<open>value ? 1 : 0\<close>; \<open>truthy\<close> is the host's test of a value
  (a float is falsy when it is a zero or a NaN).
\<close>

fun truthy :: "val \<Rightarrow> bool" where
  "truthy (Bool b) = b"
| "truthy (Num n) = (n \<noteq> 0)"
| "truthy (Big n) = (n \<noteq> 0)"
| "truthy (F32 w) = (take_bit 31 w \<noteq> 0 \<and> take_bit 31 w \<le> 0x7F800000)"
| "truthy (F64 w) = (take_bit 63 w \<noteq> 0 \<and> take_bit 63 w \<le> 0x7FF0000000000000)"
| "truthy Undefined = False"

definition writeBoolean :: "val \<Rightarrow> dynbuffer \<Rightarrow> unit result" where
  "writeBoolean v s = writeByte (Num (if truthy v then 1 else 0)) s"

definition readBoolean :: "dynbuffer \<Rightarrow> val result" where
  "readBoolean s =
     (case readByte s of
        (Inl e, s1) \<Rightarrow> (Inl e, s1)
      | (Inr v, s1) \<Rightarrow> (Inr (Bool (v \<noteq> Num 0)), s1))"

definition writeShort :: "val \<Rightarrow> dynbuffer \<Rightarrow> unit result" where
  "writeShort v s = executeCall_write Int16 2 v s"

definition readShort :: "dynbuffer \<Rightarrow> val result" where
  "readShort s = executeCall_read Int16 2 s"

definition writeUnsignedShort :: "val \<Rightarrow> dynbuffer \<Rightarrow> unit result" where
  "writeUnsignedShort v s = executeCall_write UInt16 2 v s"

definition readUnsignedShort :: "dynbuffer \<Rightarrow> val result" where
  "readUnsignedShort s = executeCall_read UInt16 2 s"

definition writeInt :: "val \<Rightarrow> dynbuffer \<Rightarrow> unit result" where
  "writeInt v s = executeCall_write Int32 4 v s"

definition readInt :: "dynbuffer \<Rightarrow> val result" where
  "readInt s = executeCall_read Int32 4 s"

definition writeUnsignedInt :: "val \<Rightarrow> dynbuffer \<Rightarrow> unit result" where
  "writeUnsignedInt v s = executeCall_write UInt32 4 v s"

definition readUnsignedInt :: "dynbuffer \<Rightarrow> val result" where
  "readUnsignedInt s = executeCall_read UInt32 4 s"

definition writeFloat :: "val \<Rightarrow> dynbuffer \<Rightarrow> unit result" where
  "writeFloat v s = executeCall_write Float 4 v s"

definition readFloat :: "dynbuffer \<Rightarrow> val result" where
  "readFloat s = executeCall_read Float 4 s"

definition writeDouble :: "val \<Rightarrow> dynbuffer \<Rightarrow> unit result" where
  "writeDouble v s = executeCall_write Double 8 v s"

definition readDouble :: "dynbuffer \<Rightarrow> val result" where
  "readDouble s = executeCall_read Double 8 s"

definition writeLong :: "val \<Rightarrow> dynbuffer \<Rightarrow> unit result" where
  "writeLong v s = executeCall_write BigInt64 8 v s"

definition readLong :: "dynbuffer \<Rightarrow> val result" where
  "readLong s = executeCall_read BigInt64 8 s"

definition writeUnsignedLong :: "val \<Rightarrow> dynbuffer \<Rightarrow> unit result" where
  "writeUnsignedLong v s = executeCall_write BigUint64 8 v s"

definition readUnsignedLong :: "dynbuffer \<Rightarrow> val result" where
  "readUnsignedLong s = executeCall_read BigUint64 8 s"

subsubsection \<open>Text\<close>

text \<open>\<^verbatim>\<open>writeMultiByte(value, charSet, source)\<close> and \<^verbatim>\<open>readMultiByte(length, charSet)\<close>.\<close>

definition writeMultiByte :: "codec \<Rightarrow> string \<Rightarrow> string \<Rightarrow> bool \<Rightarrow> dynbuffer \<Rightarrow> unit result" where
  "writeMultiByte c v charSet source s =
     (if \<not> encodingExists c charSet then (Inl UnsupportedEncoding, s)
      else let encoded = encode c v charSet
           in if source then
                (case writeUnsignedShort (Num (int (length encoded))) s of
                   (Inl e, s1) \<Rightarrow> (Inl e, s1)
                 | (Inr u, s1) \<Rightarrow> writeBytes encoded 0 (int (length encoded)) s1)
              else writeBytes encoded 0 (int (length encoded)) s)"

definition readMultiByte :: "codec \<Rightarrow> int \<Rightarrow> string \<Rightarrow> dynbuffer \<Rightarrow> string result" where
  "readMultiByte c len charSet s =
     (if \<not> encodingExists c charSet then (Inl UnsupportedEncoding, s)
      else let buffer = subarray (position s) (position s + len) (stream s);
               v = decode c buffer charSet
           in (Inr v, s\<lparr>position := position s + len\<rparr>))"

definition writeUTF :: "codec \<Rightarrow> string \<Rightarrow> dynbuffer \<Rightarrow> unit result" where
  "writeUTF c v s = writeMultiByte c v ''utf8'' True s"

text \<open>\<^verbatim>\<open>readUTF()\<close> passes the number read by \<^verbatim>\<open>readUnsignedShort\<close> on as the length.\<close>

definition readUTF :: "codec \<Rightarrow> dynbuffer \<Rightarrow> string result" where
  "readUTF c s =
     (case readUnsignedShort s of
        (Inl e, s1) \<Rightarrow> (Inl e, s1)
      | (Inr (Num n), s1) \<Rightarrow> readMultiByte c n ''utf8'' s1
      | (Inr other, s1) \<Rightarrow> (Inl TypeError, s1))"

definition writeUTFBytes :: "codec \<Rightarrow> string \<Rightarrow> dynbuffer \<Rightarrow> unit result" where
  "writeUTFBytes c v s = writeMultiByte c v ''utf8'' False s"

definition readUTFBytes :: "codec \<Rightarrow> int \<Rightarrow> dynbuffer \<Rightarrow> string result" where
  "readUTFBytes c len s = readMultiByte c len ''utf8'' s"

subsection \<open>The public operations, named\<close>

text \<open>
  The primitive types of the accessor layer, with the accessor pair, the byte width and the
  values of each. They only name what the class has, so that a statement can range over
  all types.
\<close>

datatype ptype = TByte | TUnsignedByte | TBoolean | TShort | TUnsignedShort | TInt | TUnsignedInt
  | TFloat | TDouble | TLong | TUnsignedLong

fun write_op :: "ptype \<Rightarrow> val \<Rightarrow> dynbuffer \<Rightarrow> unit result" where
  "write_op TByte = writeByte"
| "write_op TUnsignedByte = writeUnsignedByte"
| "write_op TBoolean = writeBoolean"
| "write_op TShort = writeShort"
| "write_op TUnsignedShort = writeUnsignedShort"
| "write_op TInt = writeInt"
| "write_op TUnsignedInt = writeUnsignedInt"
| "write_op TFloat = writeFloat"
| "write_op TDouble = writeDouble"
| "write_op TLong = writeLong"
| "write_op TUnsignedLong = writeUnsignedLong"

fun read_op :: "ptype \<Rightarrow> dynbuffer \<Rightarrow> val result" where
  "read_op TByte = readByte"
| "read_op TUnsignedByte = readUnsignedByte"
| "read_op TBoolean = readBoolean"
| "read_op TShort = readShort"
| "read_op TUnsignedShort = readUnsignedShort"
| "read_op TInt = readInt"
| "read_op TUnsignedInt = readUnsignedInt"
| "read_op TFloat = readFloat"
| "read_op TDouble = readDouble"
| "read_op TLong = readLong"
| "read_op TUnsignedLong = readUnsignedLong"

fun width :: "ptype \<Rightarrow> int" where
  "width TByte = 1"
| "width TUnsignedByte = 1"
| "width TBoolean = 1"
| "width TShort = 2"
| "width TUnsignedShort = 2"
| "width TInt = 4"
| "width TUnsignedInt = 4"
| "width TFloat = 4"
| "width TDouble = 8"
| "width TLong = 8"
| "width TUnsignedLong = 8"

fun representable :: "ptype \<Rightarrow> val \<Rightarrow> bool" where
  "representable TByte (Num n) = (- 128 \<le> n \<and> n \<le> 127)"
| "representable TUnsignedByte (Num n) = (0 \<le> n \<and> n \<le> 255)"
| "representable TBoolean (Bool b) = True"
| "representable TShort (Num n) = (- 32768 \<le> n \<and> n \<le> 32767)"
| "representable TUnsignedShort (Num n) = (0 \<le> n \<and> n \<le> 65535)"
| "representable TInt (Num n) = (- 2147483648 \<le> n \<and> n \<le> 2147483647)"
| "representable TUnsignedInt (Num n) = (0 \<le> n \<and> n \<le> 4294967295)"
| "representable TFloat (F32 w) = True"
| "representable TDouble (F64 w) = True"
| "representable TLong (Big n) = (- 9223372036854775808 \<le> n \<and> n \<le> 9223372036854775807)"
| "representable TUnsignedLong (Big n) = (0 \<le> n \<and> n \<le> 18446744073709551615)"
| "representable _ _ = False"

text \<open>
  The Buffer family behind each type, and the integer whose low bytes represent a value:
  the two's complement of an integer, the pattern of a float, 1 and 0 for the booleans.
\<close>

fun type_kind :: "ptype \<Rightarrow> kind" where
  "type_kind TByte = Int8"
| "type_kind TUnsignedByte = UInt8"
| "type_kind TBoolean = Int8"
| "type_kind TShort = Int16"
| "type_kind TUnsignedShort = UInt16"
| "type_kind TInt = Int32"
| "type_kind TUnsignedInt = UInt32"
| "type_kind TFloat = Float"
| "type_kind TDouble = Double"
| "type_kind TLong = BigInt64"
| "type_kind TUnsignedLong = BigUint64"

fun raw_bits :: "val \<Rightarrow> int" where
  "raw_bits (Num n) = n"
| "raw_bits (Big n) = n"
| "raw_bits (F32 w) = uint w"
| "raw_bits (F64 w) = uint w"
| "raw_bits (Bool b) = (if b then 1 else 0)"
| "raw_bits Undefined = 0"


text \<open>Every public member that changes or reads the buffer, and the state it leaves.\<close>

datatype op =
    SetLength int
  | SetPosition int
  | SetEndian endian
  | Clear
  | Write ptype val
  | Read ptype
  | WriteBytes "byte list" int int
  | ReadBytes "byte list" int int
  | WriteMultiByte string string bool
  | ReadMultiByte int string
  | WriteUTF string
  | ReadUTF
  | WriteUTFBytes string
  | ReadUTFBytes int

fun perform :: "codec \<Rightarrow> op \<Rightarrow> dynbuffer \<Rightarrow> dynbuffer" where
  "perform c (SetLength n) s = set_length n s"
| "perform c (SetPosition n) s = set_position n s"
| "perform c (SetEndian e) s = set_endian e s"
| "perform c Clear s = clear s"
| "perform c (Write T v) s = snd (write_op T v s)"
| "perform c (Read T) s = snd (read_op T s)"
| "perform c (WriteBytes bs p n) s = snd (writeBytes bs p n s)"
| "perform c (ReadBytes bs p n) s = snd (readBytes bs p n s)"
| "perform c (WriteMultiByte v cs src) s = snd (writeMultiByte c v cs src s)"
| "perform c (ReadMultiByte n cs) s = snd (readMultiByte c n cs s)"
| "perform c (WriteUTF v) s = snd (writeUTF c v s)"
| "perform c ReadUTF s = snd (readUTF c s)"
| "perform c (WriteUTFBytes v) s = snd (writeUTFBytes c v s)"
| "perform c (ReadUTFBytes n) s = snd (readUTFBytes c n s)"

text \<open>
  A codec for the closed examples: it knows \<^verbatim>\<open>utf8\<close> only and handles 7-bit text, where a
  character is its own byte.
\<close>

definition sample_codec :: codec where
  "sample_codec =
     \<lparr>encodingExists = (\<lambda>name. name = ''utf8''),
      encode = (\<lambda>text name. map of_char text),
      decode = (\<lambda>bytes name. map (\<lambda>b. char_of (unat b)) bytes)\<rparr>"

section \<open>Properties\<close>

subsection \<open>Bytes of a value\<close>

text \<open>
  The two byte orders are mirror images, and reading the bytes of a value back gives the
  value modulo the width; a value representable in its type passes the checks of its
  method, is stored by its raw bits and is recovered from them.
\<close>


lemma length_le_bytes: "length (le_bytes n v) = n"
  by (induction n arbitrary: v) auto

lemma length_be_bytes: "length (be_bytes n v) = n"
  by (induction n arbitrary: v) auto

lemma be_bytes_rev: "be_bytes n v = rev (le_bytes n v)"
  by (induction n arbitrary: v) auto

lemma le_val_le_bytes: "le_val (le_bytes n v) = v mod 256 ^ n"
proof (induction n arbitrary: v)
  case 0
  show ?case by simp
next
  case (Suc n)
  have "uint (word_of_int v :: byte) = v mod 256"
    by (simp add: uint_word_of_int)
  then show ?case
    using Suc [of "v div 256"]
    by (simp add: zmod_zmult2_eq)
qed

lemma be_val_snoc: "be_val (bs @ [b]) = be_val bs * 256 + uint b"
  by (simp add: be_val_def)

lemma be_val_rev: "be_val (rev bs) = le_val bs"
  by (induction bs) (auto simp: be_val_snoc be_val_def)

lemma be_val_be_bytes: "be_val (be_bytes n v) = v mod 256 ^ n"
  by (simp add: be_bytes_rev be_val_rev le_val_le_bytes)

lemma signed_mod:
  fixes n :: int
  assumes "- (2 ^ (b - 1)) \<le> n" and "n \<le> 2 ^ (b - 1) - 1" and "0 < b"
  shows "signed b (n mod 2 ^ b) = n"
proof -
  have two: "(2::int) ^ b = 2 * 2 ^ (b - 1)"
    using assms(3) by (cases b) simp_all
  show ?thesis
  proof (cases "n < 0")
    case True
    have "(n + 2 ^ b) mod 2 ^ b = n + 2 ^ b"
      using assms True two by (intro mod_pos_pos_trivial) linarith+
    then have "n mod 2 ^ b = n + 2 ^ b" by simp
    then show ?thesis using assms True two by (simp add: signed_def)
  next
    case False
    then have "n mod 2 ^ b = n"
      using assms two by (intro mod_pos_pos_trivial) linarith+
    then show ?thesis using assms False two by (simp add: signed_def)
  qed
qed

lemma unsigned_mod:
  fixes n :: int
  assumes "0 \<le> n" and "n \<le> 2 ^ b - 1"
  shows "n mod 2 ^ b = n"
  using assms by (intro mod_pos_pos_trivial) linarith+

lemma le_bytes_numeral:
  "le_bytes (numeral k) v = word_of_int v # le_bytes (pred_numeral k) (v div 256)"
  by (simp add: numeral_eq_Suc)

lemma be_bytes_numeral:
  "be_bytes (numeral k) v = be_bytes (pred_numeral k) (v div 256) @ [word_of_int v]"
  by (simp add: numeral_eq_Suc)

lemma length_store_bytes:
  "in_bounds off (length bs) buf \<Longrightarrow> length (store_bytes bs off buf) = length buf"
  by (auto simp: in_bounds_def store_bytes_def)

lemma span_store_bytes:
  "in_bounds off (length bs) buf \<Longrightarrow> take (length bs) (drop (nat off) (store_bytes bs off buf)) = bs"
  by (auto simp: in_bounds_def store_bytes_def)

lemma native_value:
  assumes "representable T v" and "T \<noteq> TBoolean"
  shows "checked (kind_family (type_kind T)) v = None
         \<and> stored (kind_family (type_kind T)) v = Inr (raw_bits v)
         \<and> bits_number (type_kind T) (raw_bits v mod 256 ^ kind_width (type_kind T)) = v"
proof (cases T)
  case TByte
  with assms obtain m where v: "v = Num m" and r: "- (2 ^ (8 - 1)) \<le> m" "m \<le> 2 ^ (8 - 1) - 1"
    by (cases v) simp_all
  from signed_mod [OF r] r show ?thesis by (simp add: TByte v checkInt_def)
next
  case TUnsignedByte
  with assms obtain m where v: "v = Num m" and r: "0 \<le> m" "m \<le> 2 ^ 8 - 1"
    by (cases v) simp_all
  from unsigned_mod [OF r] r show ?thesis by (simp add: TUnsignedByte v checkInt_def)
next
  case TBoolean
  with assms show ?thesis by simp
next
  case TShort
  with assms obtain m where v: "v = Num m" and r: "- (2 ^ (16 - 1)) \<le> m" "m \<le> 2 ^ (16 - 1) - 1"
    by (cases v) simp_all
  from signed_mod [OF r] r show ?thesis by (simp add: TShort v checkInt_def)
next
  case TUnsignedShort
  with assms obtain m where v: "v = Num m" and r: "0 \<le> m" "m \<le> 2 ^ 16 - 1"
    by (cases v) simp_all
  from unsigned_mod [OF r] r show ?thesis by (simp add: TUnsignedShort v checkInt_def)
next
  case TInt
  with assms obtain m where v: "v = Num m" and r: "- (2 ^ (32 - 1)) \<le> m" "m \<le> 2 ^ (32 - 1) - 1"
    by (cases v) simp_all
  from signed_mod [OF r] r show ?thesis by (simp add: TInt v checkInt_def)
next
  case TUnsignedInt
  with assms obtain m where v: "v = Num m" and r: "0 \<le> m" "m \<le> 2 ^ 32 - 1"
    by (cases v) simp_all
  from unsigned_mod [OF r] r show ?thesis by (simp add: TUnsignedInt v checkInt_def)
next
  case TFloat
  with assms obtain w where v: "v = F32 w"
    by (cases v) simp_all
  have "uint w mod 2 ^ 32 = uint w"
    using unsigned_mod [of "uint w" 32] uint_bounded [of w] by simp
  then show ?thesis by (simp add: TFloat v)
next
  case TDouble
  with assms obtain w where v: "v = F64 w"
    by (cases v) simp_all
  have "uint w mod 2 ^ 64 = uint w"
    using unsigned_mod [of "uint w" 64] uint_bounded [of w] by simp
  then show ?thesis by (simp add: TDouble v)
next
  case TLong
  with assms obtain m where v: "v = Big m" and r: "- (2 ^ (64 - 1)) \<le> m" "m \<le> 2 ^ (64 - 1) - 1"
    by (cases v) simp_all
  from signed_mod [OF r] r show ?thesis by (simp add: TLong v checkInt_def)
next
  case TUnsignedLong
  with assms obtain m where v: "v = Big m" and r: "0 \<le> m" "m \<le> 2 ^ 64 - 1"
    by (cases v) simp_all
  from unsigned_mod [OF r] r show ?thesis by (simp add: TUnsignedLong v checkInt_def)
qed

subsection \<open>The view, capacity and \<^verbatim>\<open>#executeCall\<close>\<close>

text \<open>
  The view never shows more than the ArrayBuffer holds, and a write through it changes
  exactly the bytes it shows. \<open>ensureCapacity_eq\<close> is the closed form of \<^verbatim>\<open>#ensureCapacity\<close>:
  the ArrayBuffer gets the length \<open>position + bytes\<close>. A Buffer read at the offset of a
  successful write of the same kind and byte order reads the stored bytes.
\<close>


lemma stream_position [simp]: "stream (s\<lparr>position := p\<rparr>) = stream s"
  by (simp add: stream_def split: option.splits)

lemma stream_endian [simp]: "stream (s\<lparr>endian := e\<rparr>) = stream s"
  by (simp add: stream_def split: option.splits)

lemma length_stream_le: "length (stream s) \<le> length (arraybuffer s)"
  by (simp add: stream_def split: option.splits)

lemma stream_tracking: "view s = None \<Longrightarrow> stream s = arraybuffer s"
  by (simp add: stream_def)

lemma stream_write_through:
  assumes "length st = length (stream s)"
  shows "stream (write_through st s) = st"
  using assms by (auto simp: stream_def write_through_def split: option.splits if_splits)

lemma write_through_frame [simp]:
  "position (write_through st s) = position s" "endian (write_through st s) = endian s"
  "view (write_through st s) = view s"
  by (simp_all add: write_through_def)

lemma Buffer_write_Inr:
  "Buffer_write k sfx v off buf = Inr buf' \<longleftrightarrow>
     method_exists k sfx \<and> checked (kind_family k) v = None \<and> in_bounds off (kind_width k) buf
     \<and> (\<exists>n. stored (kind_family k) v = Inr n
          \<and> buf' = store_bytes (if sfx = Some BE then be_bytes (kind_width k) n
                                 else le_bytes (kind_width k) n) off buf)"
  by (auto simp: Buffer_write_def split: option.splits sum.splits)

lemma Buffer_write_length:
  assumes "Buffer_write k sfx v off buf = Inr buf'"
  shows "length buf' = length buf"
proof -
  from assms obtain n where b: "in_bounds off (kind_width k) buf"
    and buf': "buf' = store_bytes (if sfx = Some BE then be_bytes (kind_width k) n
                 else le_bytes (kind_width k) n) off buf"
    by (auto simp: Buffer_write_Inr)
  let ?bs = "if sfx = Some BE then be_bytes (kind_width k) n else le_bytes (kind_width k) n"
  have "length ?bs = kind_width k"
    by (simp add: length_le_bytes length_be_bytes)
  with b have "in_bounds off (length ?bs) buf" by simp
  from length_store_bytes [OF this] buf' show ?thesis by simp
qed

lemma Buffer_read_store:
  assumes m: "method_exists k sfx" and b: "in_bounds off (kind_width k) buf"
  shows "Buffer_read k sfx off
           (store_bytes (if sfx = Some BE then be_bytes (kind_width k) n
                         else le_bytes (kind_width k) n) off buf)
         = Inr (bits_number k (n mod 256 ^ kind_width k))"
proof -
  let ?bs = "if sfx = Some BE then be_bytes (kind_width k) n else le_bytes (kind_width k) n"
  have len: "length ?bs = kind_width k"
    by (simp add: length_le_bytes length_be_bytes)
  with b have b2: "in_bounds off (length ?bs) buf" by simp
  have span: "take (kind_width k) (drop (nat off) (store_bytes ?bs off buf)) = ?bs"
    using span_store_bytes [OF b2] len by simp
  have "length (store_bytes ?bs off buf) = length buf"
    by (rule length_store_bytes [OF b2])
  with b have b': "in_bounds off (kind_width k) (store_bytes ?bs off buf)"
    by (simp add: in_bounds_def)
  have "(if sfx = Some BE then be_val ?bs else le_val ?bs) = n mod 256 ^ kind_width k"
    by (simp add: be_val_be_bytes le_val_le_bytes)
  then show ?thesis
    using m b' span by (simp add: Buffer_read_def)
qed

lemma ensureCapacity_eq:
  "ensureCapacity b s =
     (if bytesAvailable s < b then
        (if maxByteLength < position s + b then (Inl CapacityExceeded, s)
         else (Inr (), s\<lparr>arraybuffer := take (nat (position s + b)) (arraybuffer s)
                 @ replicate (nat (position s + b) - length (arraybuffer s)) 0\<rparr>))
      else (Inr (), s))"
  by (auto simp: ensureCapacity_def bytesAvailable_def resize_def Let_def add.commute)

lemma ensureCapacity_tracking:
  assumes "view s = None" and "bytesAvailable s < b" and "position s + b \<le> maxByteLength"
  shows "ensureCapacity b s
         = (Inr (), s\<lparr>arraybuffer := arraybuffer s @ replicate (nat (b - bytesAvailable s)) 0\<rparr>)"
proof -
  have st: "stream s = arraybuffer s"
    by (rule stream_tracking [OF assms(1)])
  with assms(2) have "int (length (arraybuffer s)) < position s + b"
    by (simp add: bytesAvailable_def)
  then have "take (nat (position s + b)) (arraybuffer s) = arraybuffer s"
    and "nat (position s + b) - length (arraybuffer s) = nat (b - bytesAvailable s)"
    by (simp_all add: bytesAvailable_def st nat_diff_distrib)
  with assms show ?thesis by (simp add: ensureCapacity_eq)
qed

lemma ensureCapacity_frame [simp]:
  "position (snd (ensureCapacity b s)) = position s"
  "endian (snd (ensureCapacity b s)) = endian s"
  "view (snd (ensureCapacity b s)) = view s"
  by (simp_all add: ensureCapacity_eq)

lemma executeCall_write_success:
  assumes "executeCall_write k b v s = (Inr (), s1)"
  shows "\<exists>s0 n. ensureCapacity b s = (Inr (), s0)
           \<and> method_exists k (func_suffix b s)
           \<and> checked (kind_family k) v = None
           \<and> in_bounds (position s) (kind_width k) (stream s0)
           \<and> stored (kind_family k) v = Inr n
           \<and> stream s1 = store_bytes (if func_suffix b s = Some BE then be_bytes (kind_width k) n
                                       else le_bytes (kind_width k) n) (position s) (stream s0)
           \<and> position s1 = position s + b \<and> endian s1 = endian s \<and> view s1 = view s"
proof -
  obtain r s0 where e: "ensureCapacity b s = (r, s0)"
    by (cases "ensureCapacity b s")
  with assms obtain u where r: "r = Inr u"
    by (cases r) (simp_all add: executeCall_write_def)
  have fr: "position s0 = position s" "endian s0 = endian s" "view s0 = view s"
    using ensureCapacity_frame [of b s] e by simp_all
  then have sfx: "func_suffix b s0 = func_suffix b s"
    by (simp add: func_suffix_def)
  from assms e r obtain st where
    w: "Buffer_write k (func_suffix b s) v (position s) (stream s0) = Inr st"
    and s1: "s1 = (write_through st s0)\<lparr>position := position s + b\<rparr>"
    by (auto simp: executeCall_write_def fr sfx split: sum.splits)
  from Buffer_write_length [OF w] have "stream (write_through st s0) = st"
    by (rule stream_write_through)
  with w s1 fr e r show ?thesis
    by (auto simp: Buffer_write_Inr)
qed

lemma executeCall_roundtrip:
  assumes "executeCall_write k b v s = (Inr (), s1)"
  shows "\<exists>n. stored (kind_family k) v = Inr n
           \<and> executeCall_read k b (s1\<lparr>position := position s\<rparr>)
               = (Inr (bits_number k (n mod 256 ^ kind_width k)), s1)"
proof -
  from executeCall_write_success [OF assms] obtain s0 n where
    m: "method_exists k (func_suffix b s)"
    and b: "in_bounds (position s) (kind_width k) (stream s0)"
    and n: "stored (kind_family k) v = Inr n"
    and st: "stream s1 = store_bytes (if func_suffix b s = Some BE then be_bytes (kind_width k) n
                                       else le_bytes (kind_width k) n) (position s) (stream s0)"
    and fr: "position s1 = position s + b" "endian s1 = endian s"
    by blast
  have sfx: "func_suffix b (s1\<lparr>position := position s\<rparr>) = func_suffix b s"
    by (simp add: func_suffix_def fr)
  have "s1\<lparr>position := position s\<rparr>\<lparr>position := position s + b\<rparr> = s1"
    using fr by simp
  with Buffer_read_store [OF m b, of n] n st sfx show ?thesis
    by (simp add: executeCall_read_def)
qed

lemma executeCall_write_cursor:
  "position (snd (executeCall_write k b v s)) =
     (if fst (executeCall_write k b v s) = Inr () then position s + b else position s)"
  by (auto simp: executeCall_write_def ensureCapacity_eq split: sum.splits)

subsection \<open>Shared facts about the accessors\<close>


lemmas accessor_defs =
  writeByte_def readByte_def writeUnsignedByte_def readUnsignedByte_def
  writeBoolean_def readBoolean_def writeShort_def readShort_def
  writeUnsignedShort_def readUnsignedShort_def writeInt_def readInt_def
  writeUnsignedInt_def readUnsignedInt_def writeFloat_def readFloat_def
  writeDouble_def readDouble_def writeLong_def readLong_def
  writeUnsignedLong_def readUnsignedLong_def

lemmas host_defs =
  executeCall_write_def executeCall_read_def ensureCapacity_eq bytesAvailable_def
  func_suffix_def Buffer_write_def Buffer_read_def method_exists_def checkInt_def
  in_bounds_def store_bytes_def maxByteLength_def be_val_def signed_def
  stream_def write_through_def

text \<open>
  Each typed accessor is \<^verbatim>\<open>#executeCall\<close> on the family of its type with the width of its
  type; the boolean pair goes through the byte pair.
\<close>

lemma write_op_eq:
  "T \<noteq> TBoolean \<Longrightarrow> write_op T v s = executeCall_write (type_kind T) (width T) v s"
  by (cases T) (simp_all add: accessor_defs)

lemma read_op_eq:
  "T \<noteq> TBoolean \<Longrightarrow> read_op T s = executeCall_read (type_kind T) (width T) s"
  by (cases T) (simp_all add: accessor_defs)

lemma width_kind: "width T = int (kind_width (type_kind T))"
  by (cases T) simp_all

lemma write_op_cursor:
  "position (snd (write_op T v s)) =
     (if fst (write_op T v s) = Inr () then position s + width T else position s)"
  by (cases T) (simp_all add: accessor_defs executeCall_write_cursor)

lemma read_op_cursor:
  "position (snd (read_op T s)) =
     (if isl (fst (read_op T s)) then position s else position s + width T)"
  by (cases T)
     (auto simp: accessor_defs executeCall_read_def split: sum.splits prod.splits)

lemma readMultiByte_cursor:
  "position (snd (readMultiByte c len cs s)) =
     (if isl (fst (readMultiByte c len cs s)) then position s else position s + len)"
  by (simp add: readMultiByte_def Let_def)

lemma executeCall_write_succeeds:
  assumes c: "checked (kind_family k) v = None" and n: "stored (kind_family k) v = Inr n"
    and b: "b = int (kind_width k)"
    and p: "0 \<le> position s"
    and room: "position s + b \<le> get_length s \<or> view s = None \<and> position s + b \<le> maxByteLength"
  shows "fst (executeCall_write k b v s) = Inr ()"
proof -
  have m: "method_exists k (func_suffix b s)"
    using b by (simp add: method_exists_def func_suffix_def)
  obtain s0 where e: "ensureCapacity b s = (Inr (), s0)"
    and bound: "in_bounds (position s) (kind_width k) (stream s0)"
  proof (cases "position s + b \<le> get_length s")
    case True
    then have "ensureCapacity b s = (Inr (), s)" "in_bounds (position s) (kind_width k) (stream s)"
      using p b by (simp_all add: ensureCapacity_eq bytesAvailable_def get_length_def in_bounds_def)
    then show ?thesis by (rule that)
  next
    case False
    with room have v: "view s = None" and cap: "position s + b \<le> maxByteLength"
      by simp_all
    from False have av: "bytesAvailable s < b"
      by (simp add: bytesAvailable_def get_length_def)
    let ?s0 = "s\<lparr>arraybuffer := arraybuffer s @ replicate (nat (b - bytesAvailable s)) 0\<rparr>"
    have e: "ensureCapacity b s = (Inr (), ?s0)"
      by (rule ensureCapacity_tracking [OF v av cap])
    have "stream ?s0 = arraybuffer s @ replicate (nat (b - bytesAvailable s)) 0"
      using v by (simp add: stream_def)
    moreover have "stream s = arraybuffer s"
      by (rule stream_tracking [OF v])
    ultimately have "in_bounds (position s) (kind_width k) (stream ?s0)"
      using p b av by (simp add: in_bounds_def bytesAvailable_def)
    with e show ?thesis by (rule that)
  qed
  have fr: "position s0 = position s" "func_suffix b s0 = func_suffix b s"
    using ensureCapacity_frame [of b s] e by (simp_all add: func_suffix_def)
  show ?thesis
    using e m c n bound fr by (simp add: executeCall_write_def Buffer_write_def)
qed

lemma write_op_succeeds:
  assumes r: "representable T v" and p: "0 \<le> position s"
    and room: "position s + width T \<le> get_length s
               \<or> view s = None \<and> position s + width T \<le> maxByteLength"
  shows "fst (write_op T v s) = Inr ()"
proof (cases "T = TBoolean")
  case True
  with r obtain b where v: "v = Bool b" by (cases v) simp_all
  have "fst (executeCall_write Int8 1 (Num (if b then 1 else 0)) s) = Inr ()"
    using p room True by (intro executeCall_write_succeeds [where n = "if b then 1 else 0"])
      (simp_all add: checkInt_def)
  then show ?thesis by (simp add: True v writeBoolean_def writeByte_def)
next
  case False
  from native_value [OF r False] p room show ?thesis
    unfolding write_op_eq [OF False]
    by (intro executeCall_write_succeeds [where n = "raw_bits v"]) (simp_all add: width_kind)
qed

lemma executeCall_roundtrip_snd:
  assumes "fst (executeCall_write k b v s) = Inr ()"
  shows "\<exists>n. stored (kind_family k) v = Inr n
           \<and> executeCall_read k b (set_position (position s) (snd (executeCall_write k b v s)))
               = (Inr (bits_number k (n mod 256 ^ kind_width k)), snd (executeCall_write k b v s))"
proof -
  from assms have "executeCall_write k b v s = (Inr (), snd (executeCall_write k b v s))"
    by (cases "executeCall_write k b v s") simp
  from executeCall_roundtrip [OF this] show ?thesis
    by (simp add: set_position_def)
qed

lemma write_op_roundtrip:
  assumes r: "representable T v" and ok: "fst (write_op T v s) = Inr ()"
  shows "read_op T (set_position (position s) (snd (write_op T v s)))
         = (Inr v, snd (write_op T v s))"
proof (cases "T = TBoolean")
  case True
  with r obtain b where v: "v = Bool b" by (cases v) simp_all
  let ?n = "Num (if b then 1 else 0)"
  from ok have "fst (executeCall_write Int8 1 ?n s) = Inr ()"
    by (simp add: True v writeBoolean_def writeByte_def)
  from executeCall_roundtrip_snd [OF this] show ?thesis
    by (auto simp: True v writeBoolean_def writeByte_def readBoolean_def readByte_def signed_def)
next
  case False
  from ok have "fst (executeCall_write (type_kind T) (width T) v s) = Inr ()"
    by (simp add: write_op_eq [OF False])
  from executeCall_roundtrip_snd [OF this] native_value [OF r False] show ?thesis
    by (auto simp: write_op_eq [OF False] read_op_eq [OF False])
qed

subsection \<open>The view after a length assignment; coerced arguments\<close>

text \<open>
  Once the length has been assigned (also by \<^verbatim>\<open>clear()\<close>) the stream is a view of fixed length:
  \<^verbatim>\<open>#ensureCapacity\<close> still resizes the ArrayBuffer, but the length of the stream stays, and a
  write past it throws. A value of another kind is coerced by the host's method as far as
  the model follows it.
\<close>

lemma write_after_clear:
  "clear DynBuffer = \<lparr>arraybuffer = [], view = Some 0, position = 0, endian = BE\<rparr>
   \<and> writeByte (Num 1) (clear DynBuffer)
       = (Inl OutOfBounds, \<lparr>arraybuffer = [0], view = Some 0, position = 0, endian = BE\<rparr>)
   \<and> get_length (snd (writeByte (Num 1) (clear DynBuffer))) = 0"
  by (simp add: clear_def set_length_def subarray_def relative_index_def writeByte_def
      host_defs DynBuffer_def get_length_def)

lemma ensureCapacity_after_set_length:
  "set_position 2 (set_length 3 \<lparr>arraybuffer = [1, 2, 3, 4, 5], view = None, position = 0, endian = BE\<rparr>)
     = \<lparr>arraybuffer = [1, 2, 3, 4, 5], view = Some 3, position = 2, endian = BE\<rparr>
   \<and> ensureCapacity 4 \<lparr>arraybuffer = [1, 2, 3, 4, 5], view = Some 3, position = 2, endian = BE\<rparr>
       = (Inr (), \<lparr>arraybuffer = [1, 2, 3, 4, 5, 0], view = Some 3, position = 2, endian = BE\<rparr>)
   \<and> get_length \<lparr>arraybuffer = [1, 2, 3, 4, 5, 0], view = Some 3, position = 2, endian = BE\<rparr> = 3"
  by (simp add: set_position_def set_length_def subarray_def relative_index_def
      ensureCapacity_eq bytesAvailable_def maxByteLength_def get_length_def stream_def)

lemma coerced_arguments:
  "writeInt Undefined DynBuffer
     = (Inr (), \<lparr>arraybuffer = [0, 0, 0, 0], view = None, position = 4, endian = BE\<rparr>)
   \<and> writeByte (Bool True) DynBuffer
       = (Inr (), \<lparr>arraybuffer = [1], view = None, position = 1, endian = BE\<rparr>)
   \<and> fst (writeLong (Num (2 ^ 70)) DynBuffer) = Inl ValueOutOfRange
   \<and> fst (writeLong (Num 5) DynBuffer) = Inl TypeError
   \<and> fst (writeByte (Big 5) DynBuffer) = Inl TypeError"
  by (simp add: writeInt_def writeByte_def writeLong_def host_defs DynBuffer_def
      be_bytes_numeral)

subsection \<open>The claims\<close>

text \<open>
  Claim C10. For every state and all arguments, \<^verbatim>\<open>writeBytes\<close> and \<^verbatim>\<open>readBytes\<close> leave the whole
  state (ArrayBuffer, view, position, byte order) as it was and return nothing; assigning a
  length larger than the current one leaves the state as it was too.
\<close>

theorem bulk_transfer_and_extension_are_inert:
  "writeBytes bs p n s = (Inr (), s) \<and> readBytes bs p n s = (Inr (), s)
   \<and> (get_length s < v \<longrightarrow> set_length v s = s)"
  by (simp add: writeBytes_def readBytes_def set_length_def get_length_def)

text \<open>The statement at a two-byte buffer, with 10 as the larger length.\<close>

theorem bulk_transfer_and_extension_are_inert_witness:
  "get_length \<lparr>arraybuffer = [0, 7], view = None, position = 2, endian = BE\<rparr> < 10
   \<and> set_length 10 \<lparr>arraybuffer = [0, 7], view = None, position = 2, endian = BE\<rparr>
       = \<lparr>arraybuffer = [0, 7], view = None, position = 2, endian = BE\<rparr>
   \<and> writeBytes [1, 2, 3] 0 3 \<lparr>arraybuffer = [0, 7], view = None, position = 2, endian = BE\<rparr>
       = (Inr (), \<lparr>arraybuffer = [0, 7], view = None, position = 2, endian = BE\<rparr>)
   \<and> readBytes [1, 2, 3] 0 3 \<lparr>arraybuffer = [0, 7], view = None, position = 2, endian = BE\<rparr>
       = (Inr (), \<lparr>arraybuffer = [0, 7], view = None, position = 2, endian = BE\<rparr>)"
proof -
  have len: "get_length \<lparr>arraybuffer = [0, 7], view = None, position = 2, endian = BE\<rparr> < 10"
    by (simp add: get_length_def stream_def)
  show ?thesis
    using len bulk_transfer_and_extension_are_inert
      [of "[1, 2, 3]" 0 3 "\<lparr>arraybuffer = [0, 7], view = None, position = 2, endian = BE\<rparr>" 10]
    by simp
qed

text \<open>
  Claim C6. For a character-set name that the codec service does not know,
  \<^verbatim>\<open>writeMultiByte\<close> and \<^verbatim>\<open>readMultiByte\<close> fail with \<open>UnsupportedEncoding\<close> and the state after
  the failure is the state before it.
\<close>

theorem unknown_charset_fails_without_mutation:
  assumes "\<not> encodingExists c charSet"
  shows "writeMultiByte c v charSet source s = (Inl UnsupportedEncoding, s)
         \<and> readMultiByte c len charSet s = (Inl UnsupportedEncoding, s)"
  using assms by (simp add: writeMultiByte_def readMultiByte_def)

text \<open>The statement for the name \<^verbatim>\<open>bogus-charset\<close> on a fresh buffer.\<close>

theorem unknown_charset_fails_without_mutation_witness:
  "\<not> encodingExists sample_codec ''bogus-charset''
   \<and> writeMultiByte sample_codec ''hi'' ''bogus-charset'' True DynBuffer = (Inl UnsupportedEncoding, DynBuffer)
   \<and> readMultiByte sample_codec 5 ''bogus-charset'' DynBuffer = (Inl UnsupportedEncoding, DynBuffer)"
proof -
  have h: "\<not> encodingExists sample_codec ''bogus-charset''"
    by (simp add: sample_codec_def)
  show ?thesis
    using h unknown_charset_fails_without_mutation [OF h, of "''hi''" True DynBuffer 5]
    by simp
qed

text \<open>
  Claim C3 says that \<^verbatim>\<open>length = n\<close> with \<open>n\<close> at most the current length sets the position to
  the minimum of the old position and \<open>n\<close>. The setter assigns \<^verbatim>\<open>this.#stream.length\<close> to the
  position: with ten bytes and the position at 2, \<^verbatim>\<open>length = 5\<close> moves the position to 5 and
  not to 2.
\<close>

theorem set_length_below_cursor_counterexample:
  "5 \<le> get_length \<lparr>arraybuffer = [1, 2, 3, 4, 5, 6, 7, 8, 9, 10], view = None, position = 2, endian = BE\<rparr>
   \<and> position (set_length 5 \<lparr>arraybuffer = [1, 2, 3, 4, 5, 6, 7, 8, 9, 10], view = None, position = 2, endian = BE\<rparr>) = 5
   \<and> min (position \<lparr>arraybuffer = [1, 2, 3, 4, 5, 6, 7, 8, 9, 10] :: byte list, view = None, position = 2, endian = BE\<rparr>) 5 = 2"
  by (simp add: set_length_def get_length_def stream_def subarray_def relative_index_def)

lemma subarray_prefix:
  "0 \<le> n \<Longrightarrow> n \<le> int (length buf) \<Longrightarrow> subarray 0 n buf = take (nat n) buf"
  by (simp add: subarray_def relative_index_def Let_def)

lemma stream_fixed_prefix:
  assumes "n \<le> length (stream s)"
  shows "stream (s\<lparr>view := Some n\<rparr>) = take n (stream s)"
  using assms by (auto simp: stream_def split: option.splits if_splits)

text \<open>
  Claim C3, amended. For \<open>0 \<le> n\<close> at most the current length, \<^verbatim>\<open>length = n\<close> cuts the store to
  its first \<open>n\<close> bytes (the stream becomes a view of exactly these bytes) and sets the
  position to \<open>n\<close>, whatever the position was; that is the minimum of the old position and
  \<open>n\<close> when the old position was at least \<open>n\<close>.
\<close>

theorem set_length_truncates_and_moves_cursor:
  assumes "0 \<le> n" and "n \<le> get_length s"
  shows "set_length n s = s\<lparr>view := Some (nat n), position := n\<rparr>
         \<and> stream (set_length n s) = take (nat n) (stream s)
         \<and> get_length (set_length n s) = n
         \<and> (n \<le> position s \<longrightarrow> position (set_length n s) = min (position s) n)"
proof -
  have n: "nat n \<le> length (stream s)"
    using assms by (simp add: get_length_def)
  have eq: "set_length n s = s\<lparr>view := Some (nat n), position := n\<rparr>"
    using assms by (simp add: set_length_def get_length_def subarray_prefix Let_def)
  moreover have "stream (s\<lparr>view := Some (nat n), position := n\<rparr>) = take (nat n) (stream s)"
    using stream_fixed_prefix [OF n] by simp
  ultimately show ?thesis
    using assms n by (simp add: get_length_def)
qed

text \<open>The statement at five bytes with the position at 4, cut to three bytes.\<close>

theorem set_length_truncates_and_moves_cursor_witness:
  "(0::int) \<le> 3 \<and> 3 \<le> get_length \<lparr>arraybuffer = [1, 2, 3, 4, 5], view = None, position = 4, endian = BE\<rparr>
   \<and> set_length 3 \<lparr>arraybuffer = [1, 2, 3, 4, 5], view = None, position = 4, endian = BE\<rparr>
       = \<lparr>arraybuffer = [1, 2, 3, 4, 5], view = Some 3, position = 3, endian = BE\<rparr>
   \<and> stream (set_length 3 \<lparr>arraybuffer = [1, 2, 3, 4, 5], view = None, position = 4, endian = BE\<rparr>)
       = [1, 2, 3]"
proof -
  have h: "3 \<le> get_length \<lparr>arraybuffer = [1, 2, 3, 4, 5], view = None, position = 4, endian = BE\<rparr>"
    by (simp add: get_length_def stream_def)
  show ?thesis
    using h set_length_truncates_and_moves_cursor [OF _ h] by (simp add: stream_def)
qed

text \<open>
  Claim C1 says that a write of \<open>v\<close> followed at once by the read of the same type returns
  \<open>v\<close>. The write leaves the position behind the bytes it stored, so the read that follows
  at once looks at the bytes after them: on a fresh buffer \<^verbatim>\<open>writeUnsignedByte(5)\<close> gives the
  stream \<open>[5]\<close> with position 1, and \<^verbatim>\<open>readUnsignedByte()\<close> there is out of bounds.
\<close>

theorem read_right_after_write_counterexample:
  "representable TUnsignedByte (Num 5)
   \<and> write_op TUnsignedByte (Num 5) DynBuffer
       = (Inr (), \<lparr>arraybuffer = [5], view = None, position = 1, endian = BE\<rparr>)
   \<and> stream \<lparr>arraybuffer = [5], view = None, position = 1, endian = BE\<rparr> = [5]
   \<and> read_op TUnsignedByte \<lparr>arraybuffer = [5], view = None, position = 1, endian = BE\<rparr>
       = (Inl OutOfBounds, \<lparr>arraybuffer = [5], view = None, position = 1, endian = BE\<rparr>)"
  by (simp add: writeUnsignedByte_def readUnsignedByte_def host_defs DynBuffer_def)

text \<open>
  Claim C1, amended. For every primitive type \<open>T\<close> and every value \<open>v\<close> representable in \<open>T\<close>,
  from any state in which the write accessor of \<open>T\<close> succeeds on \<open>v\<close>: after the position is
  set back to where the write began, the read accessor of \<open>T\<close> (the byte order unchanged)
  returns \<open>v\<close> and leaves the state the write left. The write succeeds whenever the
  position is not negative and either the bytes fit below the current length, or no length
  has been assigned so far (the stream is still the constructor's view) and position plus
  width is at most \<open>2 ^ 30\<close>. Float and Double values are IEEE-754 bit patterns here.
\<close>

theorem write_then_read_at_start:
  assumes "representable T v"
  shows "(0 \<le> position s
            \<and> (position s + width T \<le> get_length s
                \<or> view s = None \<and> position s + width T \<le> maxByteLength) \<longrightarrow>
            fst (write_op T v s) = Inr ())
         \<and> (fst (write_op T v s) = Inr () \<longrightarrow>
              read_op T (set_position (position s) (snd (write_op T v s)))
                = (Inr v, snd (write_op T v s)))"
  using write_op_succeeds [OF assms, of s] write_op_roundtrip [OF assms, of s] by blast

text \<open>The statement for \<^verbatim>\<open>writeShort(-2)\<close> on a fresh buffer.\<close>

theorem write_then_read_at_start_witness:
  "representable TShort (Num (- 2))
   \<and> 0 \<le> position DynBuffer \<and> view DynBuffer = None
   \<and> position DynBuffer + width TShort \<le> maxByteLength
   \<and> fst (write_op TShort (Num (- 2)) DynBuffer) = Inr ()
   \<and> read_op TShort (set_position (position DynBuffer) (snd (write_op TShort (Num (- 2)) DynBuffer)))
       = (Inr (Num (- 2)), snd (write_op TShort (Num (- 2)) DynBuffer))"
proof -
  have h: "0 \<le> position DynBuffer" "view DynBuffer = None"
    "position DynBuffer + width TShort \<le> maxByteLength"
    by (simp_all add: DynBuffer_def maxByteLength_def)
  show ?thesis
    using h write_then_read_at_start [of TShort "Num (- 2)" DynBuffer] by simp
qed

text \<open>
  Claim C2 (every successful public read or write advances the position by exactly the
  operation's byte width) fails for \<^verbatim>\<open>writeUTF\<close>: the payload goes to \<^verbatim>\<open>writeBytes\<close>, whose body
  is empty, so a successful \<^verbatim>\<open>writeUTF\<close> advances the position by the two bytes of the length
  prefix whatever the text is.
\<close>

theorem writeUTF_advances_by_prefix_only:
  assumes "fst (writeUTF c v s) = Inr ()"
  shows "position (snd (writeUTF c v s)) = position s + 2"
  using assms executeCall_write_cursor [of UInt16 2 "Num (int (length (encode c v ''utf8'')))" s]
  by (auto simp: writeUTF_def writeMultiByte_def writeBytes_def writeUnsignedShort_def Let_def
      split: if_splits prod.splits sum.splits)

text \<open>The statement for \<^verbatim>\<open>writeUTF("hi")\<close> on a fresh buffer: two bytes of text, position 2.\<close>

theorem writeUTF_advances_by_prefix_only_witness:
  "fst (writeUTF sample_codec ''hi'' DynBuffer) = Inr ()
   \<and> length (encode sample_codec ''hi'' ''utf8'') = 2
   \<and> position (snd (writeUTF sample_codec ''hi'' DynBuffer)) = position DynBuffer + 2"
proof -
  have ok: "fst (writeUTF sample_codec ''hi'' DynBuffer) = Inr ()"
    by (simp add: writeUTF_def writeMultiByte_def writeBytes_def writeUnsignedShort_def
        sample_codec_def host_defs DynBuffer_def)
  show ?thesis
    using ok writeUTF_advances_by_prefix_only [OF ok] by (simp add: sample_codec_def)
qed

text \<open>
  Claim C4 (on a fresh buffer \<^verbatim>\<open>writeUTF("hi")\<close> leaves the bytes \<open>[0x00, 0x02, 0x68, 0x69]\<close>
  and \<^verbatim>\<open>readUTF()\<close> from position 0 returns \<^verbatim>\<open>"hi"\<close>) at its input. For every codec that
  knows \<^verbatim>\<open>utf8\<close> and encodes \<^verbatim>\<open>"hi"\<close> as \<open>[0x68, 0x69]\<close>, the buffer holds the length prefix
  \<open>[0x00, 0x02]\<close> only, and \<^verbatim>\<open>readUTF()\<close> from position 0 decodes the empty byte sequence and
  leaves the position at 4.
\<close>

theorem writeUTF_hi_stores_the_prefix_only:
  assumes "encodingExists c ''utf8''" and "encode c ''hi'' ''utf8'' = [0x68, 0x69]"
  shows "writeUTF c ''hi'' DynBuffer
           = (Inr (), \<lparr>arraybuffer = [0x00, 0x02], view = None, position = 2, endian = BE\<rparr>)
         \<and> stream \<lparr>arraybuffer = [0x00, 0x02], view = None, position = 2, endian = BE\<rparr> = [0x00, 0x02]
         \<and> readUTF c (set_position 0 \<lparr>arraybuffer = [0x00, 0x02], view = None, position = 2, endian = BE\<rparr>)
             = (Inr (decode c [] ''utf8''),
                \<lparr>arraybuffer = [0x00, 0x02], view = None, position = 4, endian = BE\<rparr>)"
proof -
  have w: "writeUTF c ''hi'' DynBuffer
           = (Inr (), \<lparr>arraybuffer = [0x00, 0x02], view = None, position = 2, endian = BE\<rparr>)"
    using assms
    by (simp add: writeUTF_def writeMultiByte_def writeBytes_def writeUnsignedShort_def
        host_defs DynBuffer_def be_bytes_numeral)
  have "readUTF c \<lparr>arraybuffer = [0x00, 0x02], view = None, position = 0, endian = BE\<rparr>
          = (Inr (decode c [] ''utf8''),
             \<lparr>arraybuffer = [0x00, 0x02], view = None, position = 4, endian = BE\<rparr>)"
    using assms(1)
    by (simp add: readUTF_def readUnsignedShort_def readMultiByte_def host_defs
        subarray_def relative_index_def)
  with w show ?thesis
    by (simp add: set_position_def stream_def)
qed

text \<open>The statement for the sample codec, where the empty byte sequence decodes to \<^verbatim>\<open>""\<close>.\<close>

theorem writeUTF_hi_stores_the_prefix_only_witness:
  "encodingExists sample_codec ''utf8'' \<and> encode sample_codec ''hi'' ''utf8'' = [0x68, 0x69]
   \<and> writeUTF sample_codec ''hi'' DynBuffer
       = (Inr (), \<lparr>arraybuffer = [0x00, 0x02], view = None, position = 2, endian = BE\<rparr>)
   \<and> readUTF sample_codec (set_position 0 \<lparr>arraybuffer = [0x00, 0x02], view = None, position = 2, endian = BE\<rparr>)
       = (Inr '''', \<lparr>arraybuffer = [0x00, 0x02], view = None, position = 4, endian = BE\<rparr>)"
proof -
  have h1: "encodingExists sample_codec ''utf8''"
    by (simp add: sample_codec_def)
  have h2: "encode sample_codec ''hi'' ''utf8'' = [0x68, 0x69]"
    by (simp add: sample_codec_def)
  have "decode sample_codec [] ''utf8'' = ''''"
    by (simp add: sample_codec_def)
  then show ?thesis
    using h1 h2 writeUTF_hi_stores_the_prefix_only [OF h1 h2] by simp
qed

text \<open>
  Claim C5 says that every read with fewer bytes left than it asks for fails with
  \<open>OutOfBounds\<close>. \<^verbatim>\<open>readMultiByte\<close> takes \<^verbatim>\<open>subarray(position, position + length)\<close>, which clamps
  to the buffer: on a fresh buffer \<^verbatim>\<open>readMultiByte(5)\<close> returns the empty string and moves the
  position to 5.
\<close>

theorem readMultiByte_past_the_end_counterexample:
  "encodingExists sample_codec ''utf8'' \<and> bytesAvailable DynBuffer < 5
   \<and> readMultiByte sample_codec 5 ''utf8'' DynBuffer
       = (Inr '''', \<lparr>arraybuffer = [], view = None, position = 5, endian = BE\<rparr>)"
  by (simp add: readMultiByte_def sample_codec_def bytesAvailable_def DynBuffer_def
      subarray_def relative_index_def stream_def)

lemma read_op_out_of_bounds:
  assumes "bytesAvailable s < width T"
  shows "read_op T s = (Inl OutOfBounds, s)"
  using assms
  by (cases T)
     (simp_all add: accessor_defs executeCall_read_def Buffer_read_def method_exists_def
        func_suffix_def in_bounds_def bytesAvailable_def)

lemma subarray_tail:
  assumes "0 \<le> p" and "int (length buf) < p + len"
  shows "subarray p (p + len) buf = drop (nat p) buf"
  using assms by (auto simp: subarray_def relative_index_def Let_def min_def)

text \<open>
  Claim C5, amended. A typed read of width \<open>w\<close> with fewer than \<open>w\<close> bytes between position
  and length fails with \<open>OutOfBounds\<close> and leaves the whole state (so position and length)
  unchanged. \<^verbatim>\<open>readMultiByte(L)\<close> with a known character set does not fail for lack of bytes:
  with a position that is not negative and fewer than \<open>L\<close> bytes left it decodes the bytes
  from the position to the end, returns the result and advances the position by \<open>L\<close>; the
  stream is unchanged.
\<close>

theorem short_reads:
  "(bytesAvailable s < width T \<longrightarrow> read_op T s = (Inl OutOfBounds, s))
   \<and> (encodingExists c cs \<and> 0 \<le> position s \<and> bytesAvailable s < len \<longrightarrow>
        readMultiByte c len cs s
          = (Inr (decode c (drop (nat (position s)) (stream s)) cs),
             s\<lparr>position := position s + len\<rparr>))"
  using read_op_out_of_bounds [of s T] subarray_tail [of "position s" "stream s" len]
  by (simp add: readMultiByte_def bytesAvailable_def)

text \<open>The statement at the one-byte buffer \<open>[0x68]\<close>: \<^verbatim>\<open>readShort()\<close> and \<^verbatim>\<open>readMultiByte(5)\<close>.\<close>

theorem short_reads_witness:
  "bytesAvailable \<lparr>arraybuffer = [0x68], view = None, position = 0, endian = BE\<rparr> < width TShort
   \<and> read_op TShort \<lparr>arraybuffer = [0x68], view = None, position = 0, endian = BE\<rparr>
       = (Inl OutOfBounds, \<lparr>arraybuffer = [0x68], view = None, position = 0, endian = BE\<rparr>)
   \<and> encodingExists sample_codec ''utf8''
   \<and> bytesAvailable \<lparr>arraybuffer = [0x68], view = None, position = 0, endian = BE\<rparr> < 5
   \<and> readMultiByte sample_codec 5 ''utf8'' \<lparr>arraybuffer = [0x68], view = None, position = 0, endian = BE\<rparr>
       = (Inr ''h'', \<lparr>arraybuffer = [0x68], view = None, position = 5, endian = BE\<rparr>)"
proof -
  have h1: "bytesAvailable \<lparr>arraybuffer = [0x68], view = None, position = 0, endian = BE\<rparr> < width TShort"
    and h2: "bytesAvailable \<lparr>arraybuffer = [0x68], view = None, position = 0, endian = BE\<rparr> < 5"
    by (simp_all add: bytesAvailable_def stream_def)
  have h3: "encodingExists sample_codec ''utf8''"
    by (simp add: sample_codec_def)
  have d: "decode sample_codec [0x68] ''utf8'' = ''h''"
    by code_simp
  have st: "stream \<lparr>arraybuffer = [0x68], view = None, position = 0, endian = BE\<rparr> = [0x68]"
    by (simp add: stream_def)
  show ?thesis
    using h1 h2 h3 d st
      short_reads [of "\<lparr>arraybuffer = [0x68], view = None, position = 0, endian = BE\<rparr>" TShort
        sample_codec "''utf8''" 5]
    by simp
qed


lemma length_resized:
  "0 \<le> n \<Longrightarrow> length (take (nat n) buf @ replicate (nat n - length buf) (0 :: byte)) = nat n"
  by simp




text \<open>The length after each operation: writes keep it within the capacity, reads keep the stream.\<close>

lemma ensureCapacity_length:
  assumes "get_length s \<le> maxByteLength"
  shows "get_length (snd (ensureCapacity b s)) \<le> maxByteLength"
proof (cases "bytesAvailable s < b \<and> \<not> maxByteLength < position s + b")
  case False
  with assms show ?thesis by (auto simp: ensureCapacity_eq)
next
  case True
  let ?ab = "take (nat (position s + b)) (arraybuffer s)
             @ replicate (nat (position s + b) - length (arraybuffer s)) 0"
  from True have nn: "0 \<le> position s + b"
    by (simp add: bytesAvailable_def)
  then have len: "length ?ab = nat (position s + b)"
    by (rule length_resized)
  have "length (stream (s\<lparr>arraybuffer := ?ab\<rparr>)) \<le> length ?ab"
    using length_stream_le [of "s\<lparr>arraybuffer := ?ab\<rparr>"] by simp
  then have "length (stream (s\<lparr>arraybuffer := ?ab\<rparr>)) \<le> nat (position s + b)"
    by (simp only: len)
  with nn have "int (length (stream (s\<lparr>arraybuffer := ?ab\<rparr>))) \<le> position s + b"
    by linarith
  with True have "get_length (s\<lparr>arraybuffer := ?ab\<rparr>) \<le> maxByteLength"
    unfolding get_length_def by linarith
  with True show ?thesis by (simp add: ensureCapacity_eq)
qed

lemma executeCall_write_length:
  assumes "get_length s \<le> maxByteLength"
  shows "get_length (snd (executeCall_write k b v s)) \<le> maxByteLength"
proof (cases "ensureCapacity b s")
  case (Pair r s0)
  have s0: "get_length s0 \<le> maxByteLength"
    using ensureCapacity_length [OF assms, of b] Pair by simp
  show ?thesis
  proof (cases r)
    case (Inl e)
    with Pair s0 show ?thesis by (simp add: executeCall_write_def)
  next
    case (Inr u)
    show ?thesis
    proof (cases "Buffer_write k (func_suffix b s0) v (position s0) (stream s0)")
      case (Inl e)
      with Pair Inr s0 show ?thesis by (simp add: executeCall_write_def)
    next
      case w: (Inr st)
      from Buffer_write_length [OF w] have "stream (write_through st s0) = st"
        by (rule stream_write_through)
      with Buffer_write_length [OF w] s0 have "get_length (write_through st s0) \<le> maxByteLength"
        by (simp add: get_length_def)
      with Pair Inr w show ?thesis by (simp add: executeCall_write_def get_length_def)
    qed
  qed
qed

lemma executeCall_read_stream: "stream (snd (executeCall_read k b s)) = stream s"
  by (simp add: executeCall_read_def split: sum.splits)

lemma write_op_length:
  "get_length s \<le> maxByteLength \<Longrightarrow> get_length (snd (write_op T v s)) \<le> maxByteLength"
  by (cases T) (simp_all add: accessor_defs executeCall_write_length)

lemma readBoolean_state: "snd (readBoolean s) = snd (executeCall_read Int8 1 s)"
  by (simp add: readBoolean_def readByte_def split: prod.splits sum.splits)

lemma read_op_stream: "stream (snd (read_op T s)) = stream s"
proof (cases T)
  case TBoolean
  then show ?thesis by (simp add: readBoolean_state executeCall_read_stream)
qed (simp_all add: accessor_defs executeCall_read_stream)

lemma length_subarray: "length (subarray a b buf) \<le> length buf"
  by (simp add: subarray_def Let_def)

lemma set_length_length: "get_length (set_length n s) \<le> get_length s"
proof (cases "int (length (stream s)) < n")
  case True
  then show ?thesis by (simp add: set_length_def)
next
  case False
  let ?m = "length (subarray 0 n (stream s))"
  have m: "?m \<le> length (stream s)"
    by (rule length_subarray)
  from stream_fixed_prefix [OF m] have "stream (s\<lparr>view := Some ?m, position := int ?m\<rparr>) = take ?m (stream s)"
    by simp
  with False m show ?thesis
    by (simp add: set_length_def get_length_def Let_def)
qed

lemma writeMultiByte_length:
  "get_length s \<le> maxByteLength \<Longrightarrow> get_length (snd (writeMultiByte c v cs src s)) \<le> maxByteLength"
  using executeCall_write_length [of s UInt16 2 "Num (int (length (encode c v cs)))"]
  by (auto simp: writeMultiByte_def writeBytes_def writeUnsignedShort_def Let_def
      split: prod.splits sum.splits)

lemma readMultiByte_stream: "stream (snd (readMultiByte c n cs s)) = stream s"
  by (simp add: readMultiByte_def Let_def)

lemma readUTF_stream: "stream (snd (readUTF c s)) = stream s"
  using executeCall_read_stream [of UInt16 2 s]
  by (auto simp: readUTF_def readUnsignedShort_def readMultiByte_stream
      split: prod.splits sum.splits val.splits)

lemma perform_length:
  assumes "get_length s \<le> maxByteLength"
  shows "get_length (perform c opn s) \<le> maxByteLength"
proof (cases opn)
  case (SetLength n)
  with assms set_length_length [of n s] show ?thesis by simp
next
  case Clear
  with assms set_length_length [of 0 "s\<lparr>position := 0\<rparr>"] show ?thesis
    by (simp add: clear_def get_length_def)
next
  case (Write T v)
  with assms show ?thesis by (simp add: write_op_length)
next
  case (Read T)
  with assms show ?thesis by (simp add: get_length_def read_op_stream)
next
  case (WriteMultiByte v cs src)
  with assms show ?thesis by (simp add: writeMultiByte_length)
next
  case (WriteUTF v)
  with assms show ?thesis by (simp add: writeUTF_def writeMultiByte_length)
next
  case (WriteUTFBytes v)
  with assms show ?thesis by (simp add: writeUTFBytes_def writeMultiByte_length)
next
  case (ReadMultiByte n cs)
  with assms show ?thesis by (simp add: get_length_def readMultiByte_stream)
next
  case ReadUTF
  with assms show ?thesis by (simp add: get_length_def readUTF_stream)
next
  case (ReadUTFBytes n)
  with assms show ?thesis by (simp add: get_length_def readUTFBytes_def readMultiByte_stream)
qed (use assms in \<open>simp_all add: set_position_def set_endian_def get_length_def
      writeBytes_def readBytes_def\<close>)

lemma write_op_capacity:
  assumes "bytesAvailable s < width T" and "maxByteLength < position s + width T"
  shows "write_op T v s = (Inl CapacityExceeded, s)"
  using assms
  by (cases T) (simp_all add: accessor_defs executeCall_write_def ensureCapacity_eq)

text \<open>
  Claim C8. \<open>0 \<le> length \<le> MAX_CAPACITY\<close> with \<open>MAX_CAPACITY = 2 ^ 30\<close> holds for the fresh buffer
  and is preserved by every public operation, whether it returns or throws; a growth
  request (by \<^verbatim>\<open>#ensureCapacity\<close>, so by any typed write) whose resulting length would exceed
  \<open>MAX_CAPACITY\<close> fails with \<open>CapacityExceeded\<close> and leaves the state as it was.
\<close>

theorem length_stays_within_capacity:
  "maxByteLength = 2 ^ 30 \<and> get_length DynBuffer = 0
   \<and> (get_length s \<le> maxByteLength \<longrightarrow>
        0 \<le> get_length (perform c opn s) \<and> get_length (perform c opn s) \<le> maxByteLength)
   \<and> (bytesAvailable s < b \<and> maxByteLength < get_length s + (b - bytesAvailable s) \<longrightarrow>
        ensureCapacity b s = (Inl CapacityExceeded, s))
   \<and> (bytesAvailable s < width T \<and> maxByteLength < get_length s + (width T - bytesAvailable s) \<longrightarrow>
        write_op T v s = (Inl CapacityExceeded, s))"
proof -
  have "get_length s + (b - bytesAvailable s) = position s + b" for b
    by (simp add: get_length_def bytesAvailable_def)
  then show ?thesis
    using perform_length [of s c opn] write_op_capacity [of s T v]
    by (simp add: maxByteLength_def [symmetric] ensureCapacity_eq)
       (simp add: maxByteLength_def DynBuffer_def get_length_def stream_def)
qed

text \<open>The statement for \<^verbatim>\<open>writeInt(7)\<close> at position 2, and at position \<open>2 ^ 30\<close>.\<close>

theorem length_stays_within_capacity_witness:
  "get_length \<lparr>arraybuffer = [1, 2], view = None, position = 2, endian = LE\<rparr> \<le> maxByteLength
   \<and> get_length (perform sample_codec (Write TInt (Num 7))
        \<lparr>arraybuffer = [1, 2], view = None, position = 2, endian = LE\<rparr>) \<le> maxByteLength
   \<and> bytesAvailable \<lparr>arraybuffer = [1, 2], view = None, position = 2 ^ 30, endian = LE\<rparr> < 4
   \<and> maxByteLength < get_length \<lparr>arraybuffer = [1, 2], view = None, position = 2 ^ 30, endian = LE\<rparr>
        + (4 - bytesAvailable \<lparr>arraybuffer = [1, 2], view = None, position = 2 ^ 30, endian = LE\<rparr>)
   \<and> ensureCapacity 4 \<lparr>arraybuffer = [1, 2], view = None, position = 2 ^ 30, endian = LE\<rparr>
       = (Inl CapacityExceeded, \<lparr>arraybuffer = [1, 2], view = None, position = 2 ^ 30, endian = LE\<rparr>)
   \<and> write_op TInt (Num 7) \<lparr>arraybuffer = [1, 2], view = None, position = 2 ^ 30, endian = LE\<rparr>
       = (Inl CapacityExceeded, \<lparr>arraybuffer = [1, 2], view = None, position = 2 ^ 30, endian = LE\<rparr>)"
proof -
  have h1: "get_length \<lparr>arraybuffer = [1, 2], view = None, position = 2, endian = LE\<rparr> \<le> maxByteLength"
    and h2: "bytesAvailable \<lparr>arraybuffer = [1, 2], view = None, position = 2 ^ 30, endian = LE\<rparr> < 4"
    and h3: "maxByteLength < get_length \<lparr>arraybuffer = [1, 2], view = None, position = 2 ^ 30, endian = LE\<rparr>
        + (4 - bytesAvailable \<lparr>arraybuffer = [1, 2], view = None, position = 2 ^ 30, endian = LE\<rparr>)"
    by (simp_all add: get_length_def bytesAvailable_def maxByteLength_def stream_def)
  show ?thesis
    using h1 h2 h3
      length_stays_within_capacity [of "\<lparr>arraybuffer = [1, 2], view = None, position = 2, endian = LE\<rparr>"
        sample_codec "Write TInt (Num 7)"]
      length_stays_within_capacity [of "\<lparr>arraybuffer = [1, 2], view = None, position = 2 ^ 30, endian = LE\<rparr>"
        _ _ 4 TInt "Num 7"]
    by simp
qed

text \<open>
  The bytes a multi-byte write stores, read back as the span it wrote; whether the write
  succeeds does not depend on the byte order.
\<close>

lemma subarray_store_bytes:
  assumes "in_bounds off (length bs) buf"
  shows "subarray off (off + int (length bs)) (store_bytes bs off buf) = bs"
proof -
  have "length (store_bytes bs off buf) = length buf"
    by (rule length_store_bytes [OF assms])
  then show ?thesis
    using assms span_store_bytes [OF assms]
    by (simp add: subarray_def relative_index_def in_bounds_def Let_def)
qed

lemma executeCall_write_stored:
  assumes ok: "fst (executeCall_write k b v s) = Inr ()"
    and b: "b = int (kind_width k)"
  shows "\<exists>n. stored (kind_family k) v = Inr n
           \<and> subarray (position s) (position s + b) (stream (snd (executeCall_write k b v s)))
               = (if func_suffix b s = Some BE then be_bytes (kind_width k) n
                  else le_bytes (kind_width k) n)"
proof -
  from ok have "executeCall_write k b v s = (Inr (), snd (executeCall_write k b v s))"
    by (cases "executeCall_write k b v s") simp
  from executeCall_write_success [OF this] obtain s0 n where
    bound: "in_bounds (position s) (kind_width k) (stream s0)"
    and n: "stored (kind_family k) v = Inr n"
    and st: "stream (snd (executeCall_write k b v s))
             = store_bytes (if func_suffix b s = Some BE then be_bytes (kind_width k) n
                            else le_bytes (kind_width k) n) (position s) (stream s0)"
    by blast
  let ?bs = "if func_suffix b s = Some BE then be_bytes (kind_width k) n
             else le_bytes (kind_width k) n"
  have len: "length ?bs = kind_width k"
    by (simp add: length_le_bytes length_be_bytes)
  have "subarray (position s) (position s + int (length ?bs))
          (store_bytes ?bs (position s) (stream s0)) = ?bs"
    using bound len by (intro subarray_store_bytes) simp
  with n st b len show ?thesis
    by (intro exI [of _ n]) simp
qed

lemma ensureCapacity_endian:
  "ensureCapacity b (s\<lparr>endian := e\<rparr>)
   = (fst (ensureCapacity b s), (snd (ensureCapacity b s))\<lparr>endian := e\<rparr>)"
  by (simp add: ensureCapacity_eq bytesAvailable_def)

lemma Buffer_write_outcome:
  "isl (Buffer_write k (Some e) v off buf) = isl (Buffer_write k (Some e') v off buf)
   \<and> (isl (Buffer_write k (Some e) v off buf) \<longrightarrow>
        Buffer_write k (Some e) v off buf = Buffer_write k (Some e') v off buf)"
  by (simp add: Buffer_write_def method_exists_def split: option.splits sum.splits)

lemma fst_executeCall_write:
  "fst (executeCall_write k b v s) =
     (case fst (ensureCapacity b s) of
        Inl x \<Rightarrow> Inl x
      | Inr u \<Rightarrow>
          (case Buffer_write k (func_suffix b s) v (position s) (stream (snd (ensureCapacity b s))) of
             Inl x \<Rightarrow> Inl x
           | Inr st \<Rightarrow> Inr ()))"
proof -
  have "func_suffix b (snd (ensureCapacity b s)) = func_suffix b s"
    "position (snd (ensureCapacity b s)) = position s"
    by (simp_all add: func_suffix_def)
  then show ?thesis
    by (cases "ensureCapacity b s") (auto simp: executeCall_write_def split: sum.splits)
qed

lemma executeCall_write_outcome_endian:
  assumes "b \<noteq> 1"
  shows "fst (executeCall_write k b v (set_endian e s))
         = fst (executeCall_write k b v (set_endian e' s))"
proof -
  let ?buf = "stream (snd (ensureCapacity b s))"
  let ?out = "\<lambda>r :: error + byte list. case r of Inl x \<Rightarrow> Inl x | Inr st \<Rightarrow> Inr ()"
  have "?out (Buffer_write k (Some e) v (position s) ?buf)
        = (?out (Buffer_write k (Some e') v (position s) ?buf) :: error + unit)"
    using Buffer_write_outcome [of k e v "position s" ?buf e']
    by (cases "Buffer_write k (Some e) v (position s) ?buf";
        cases "Buffer_write k (Some e') v (position s) ?buf") simp_all
  with assms show ?thesis
    by (simp add: fst_executeCall_write set_endian_def ensureCapacity_endian func_suffix_def
        cong: sum.case_cong)
qed

lemma write_op_stored:
  assumes r: "representable T v" and w: "2 \<le> width T"
    and ok: "fst (write_op T v (set_endian e s)) = Inr ()"
  shows "subarray (position s) (position s + width T) (stream (snd (write_op T v (set_endian e s))))
         = (if e = BE then be_bytes (nat (width T)) (raw_bits v)
            else le_bytes (nat (width T)) (raw_bits v))"
proof -
  from w have T: "T \<noteq> TBoolean" by auto
  from w have b1: "width T \<noteq> 1" by simp
  from ok have ok': "fst (executeCall_write (type_kind T) (width T) v (set_endian e s)) = Inr ()"
    by (simp add: write_op_eq [OF T])
  from executeCall_write_stored [OF ok' width_kind] native_value [OF r T] b1
  show ?thesis
    by (auto simp: write_op_eq [OF T] set_endian_def func_suffix_def width_kind)
qed

text \<open>
  Claim C9. For every type of width at least 2, every representable value \<open>v\<close> and every
  state, the write succeeds under big endian exactly when it does under little endian, and
  then the span of width-many bytes it stored at the position holds the raw bits of \<open>v\<close>,
  high byte first under big endian and low byte first under little endian, so that the
  bytes stored under big endian are the reverse of those stored under little endian. The
  write succeeds whenever the position is not negative and either the bytes fit below the
  current length, or no length has been assigned so far and position plus width is at most
  \<open>2 ^ 30\<close>. \<^verbatim>\<open>writeUnsignedInt(0x12345678)\<close> on a fresh buffer stores \<open>[0x12, 0x34, 0x56, 0x78]\<close>
  under BE and \<open>[0x78, 0x56, 0x34, 0x12]\<close> under LE.
\<close>

theorem big_endian_stores_the_reverse_of_little_endian:
  assumes "representable T v" and "2 \<le> width T"
  shows "fst (write_op T v (set_endian BE s)) = fst (write_op T v (set_endian LE s))
         \<and> (fst (write_op T v (set_endian BE s)) = Inr () \<longrightarrow>
              subarray (position s) (position s + width T)
                (stream (snd (write_op T v (set_endian BE s))))
              = be_bytes (nat (width T)) (raw_bits v)
              \<and> subarray (position s) (position s + width T)
                  (stream (snd (write_op T v (set_endian LE s))))
                = le_bytes (nat (width T)) (raw_bits v)
              \<and> int (length (subarray (position s) (position s + width T)
                  (stream (snd (write_op T v (set_endian BE s)))))) = width T
              \<and> subarray (position s) (position s + width T)
                  (stream (snd (write_op T v (set_endian BE s))))
                = rev (subarray (position s) (position s + width T)
                    (stream (snd (write_op T v (set_endian LE s))))))
         \<and> (0 \<le> position s
              \<and> (position s + width T \<le> get_length s
                  \<or> view s = None \<and> position s + width T \<le> maxByteLength) \<longrightarrow>
              fst (write_op T v (set_endian BE s)) = Inr ())
         \<and> writeUnsignedInt (Num 0x12345678) DynBuffer
             = (Inr (), \<lparr>arraybuffer = [0x12, 0x34, 0x56, 0x78], view = None, position = 4, endian = BE\<rparr>)
         \<and> writeUnsignedInt (Num 0x12345678) (set_endian LE DynBuffer)
             = (Inr (), \<lparr>arraybuffer = [0x78, 0x56, 0x34, 0x12], view = None, position = 4, endian = LE\<rparr>)"
proof -
  from assms(2) have T: "T \<noteq> TBoolean" and b1: "width T \<noteq> 1" by auto
  have same: "fst (write_op T v (set_endian BE s)) = fst (write_op T v (set_endian LE s))"
    using executeCall_write_outcome_endian [OF b1] by (simp add: write_op_eq [OF T])
  have spans: "subarray (position s) (position s + width T)
                (stream (snd (write_op T v (set_endian BE s))))
              = be_bytes (nat (width T)) (raw_bits v)
              \<and> subarray (position s) (position s + width T)
                  (stream (snd (write_op T v (set_endian LE s))))
                = le_bytes (nat (width T)) (raw_bits v)
              \<and> int (length (subarray (position s) (position s + width T)
                  (stream (snd (write_op T v (set_endian BE s)))))) = width T
              \<and> subarray (position s) (position s + width T)
                  (stream (snd (write_op T v (set_endian BE s))))
                = rev (subarray (position s) (position s + width T)
                    (stream (snd (write_op T v (set_endian LE s)))))"
    if ok: "fst (write_op T v (set_endian BE s)) = Inr ()"
  proof -
    from ok same have ok': "fst (write_op T v (set_endian LE s)) = Inr ()" by simp
    have "0 \<le> width T" using assms(2) by simp
    with write_op_stored [OF assms ok] write_op_stored [OF assms ok'] show ?thesis
      by (simp add: be_bytes_rev length_le_bytes)
  qed
  have succeeds: "fst (write_op T v (set_endian BE s)) = Inr ()"
    if "0 \<le> position s \<and> (position s + width T \<le> get_length s
          \<or> view s = None \<and> position s + width T \<le> maxByteLength)"
    using that write_op_succeeds [OF assms(1), of "set_endian BE s"]
    by (simp add: set_endian_def get_length_def)
  have be: "writeUnsignedInt (Num 0x12345678) DynBuffer
             = (Inr (), \<lparr>arraybuffer = [0x12, 0x34, 0x56, 0x78], view = None, position = 4, endian = BE\<rparr>)"
    by (simp add: writeUnsignedInt_def host_defs DynBuffer_def be_bytes_numeral)
  have le: "writeUnsignedInt (Num 0x12345678) (set_endian LE DynBuffer)
             = (Inr (), \<lparr>arraybuffer = [0x78, 0x56, 0x34, 0x12], view = None, position = 4, endian = LE\<rparr>)"
    by (simp add: writeUnsignedInt_def host_defs DynBuffer_def set_endian_def le_bytes_numeral)
  from same spans succeeds be le show ?thesis by blast
qed

text \<open>The statement for \<^verbatim>\<open>writeUnsignedInt(0x12345678)\<close> on a fresh buffer.\<close>

theorem big_endian_stores_the_reverse_of_little_endian_witness:
  "representable TUnsignedInt (Num 0x12345678) \<and> 2 \<le> width TUnsignedInt
   \<and> 0 \<le> position DynBuffer \<and> view DynBuffer = None
   \<and> position DynBuffer + width TUnsignedInt \<le> maxByteLength
   \<and> fst (write_op TUnsignedInt (Num 0x12345678) (set_endian BE DynBuffer)) = Inr ()
   \<and> fst (write_op TUnsignedInt (Num 0x12345678) (set_endian LE DynBuffer)) = Inr ()
   \<and> subarray 0 4 (stream (snd (write_op TUnsignedInt (Num 0x12345678) (set_endian BE DynBuffer))))
       = [0x12, 0x34, 0x56, 0x78]
   \<and> subarray 0 4 (stream (snd (write_op TUnsignedInt (Num 0x12345678) (set_endian LE DynBuffer))))
       = [0x78, 0x56, 0x34, 0x12]"
proof -
  have h: "position DynBuffer = 0" "view DynBuffer = None"
    "position DynBuffer + width TUnsignedInt \<le> maxByteLength"
    by (simp_all add: DynBuffer_def maxByteLength_def)
  have b: "be_bytes (nat 4) (raw_bits (Num 0x12345678)) = [0x12, 0x34, 0x56, 0x78]"
    "le_bytes (nat 4) (raw_bits (Num 0x12345678)) = [0x78, 0x56, 0x34, 0x12]"
    by (simp_all add: be_bytes_numeral le_bytes_numeral)
  show ?thesis
    using h b big_endian_stores_the_reverse_of_little_endian
      [of TUnsignedInt "Num 0x12345678" DynBuffer]
    by auto
qed

end
